theory Spec2Isabelle
  imports Complex_Main "HOL-Library.Word"
begin

section \<open>Data model\<close>

text \<open>
  A JavaScript string is a sequence of UTF-16 code units, and \<open>s.length\<close> counts code
  units.  Offsets into assembled text are JavaScript numbers holding integers, modelled
  as \<open>int\<close>.  Page-space coordinates are JavaScript numbers, modelled as exact reals:
  an equation between coordinates below is the equation between the formulas the code
  evaluates, and the sample inputs are chosen so that every value stated for them is
  exact in double precision as well.
\<close>

type_synonym jschar = "16 word"
type_synonym jsstring = "jschar list"

definition space :: jschar where
  "space = 0x20"

definition newline :: jschar where
  "newline = 0x0A"

text \<open>
  A text item of \<open>page.getTextContent().items\<close>.  The source reads the items as
  \<open>any\<close>: each field may be absent (\<open>None\<close>).  The transform is the affine matrix
  \<open>[a, b, c, d, e, f]\<close>.
\<close>

record text_item =
  item_str :: "jsstring option"
  item_transform :: "(real \<times> real \<times> real \<times> real \<times> real \<times> real) option"
  item_width :: "real option"
  item_height :: "real option"

text \<open>
  One page of a loaded file.  The file is read by two libraries, and the record carries
  what each reports of the page: its size as \<open>PDFDocument.getPage(i).getSize()\<close>
  gives it, its viewport at scale 1 as \<open>page.getViewport\<close> gives it, and its text
  items.  A viewport has positive width and height, so the quotients \<open>rx\<close> and \<open>ry\<close>
  below are proper divisions.
\<close>

record pdf_page =
  page_width :: real
  page_height :: real
  viewport_width :: real
  viewport_height :: real
  text_items :: "text_item list"

type_synonym pdf_file = "pdf_page list"

record TextItemBox =
  box_start :: int
  box_end :: int
  box_pageIndex :: nat
  box_x :: real
  box_y :: real
  box_width :: real
  box_height :: real

record layout =
  lay_items :: "TextItemBox list"
  lay_text :: jsstring
  pageHeights :: "real list"
  pageWidths :: "real list"

section \<open>Local text extraction\<close>

text \<open>\<open>Array.prototype.join\<close>: an absent element joins as the empty string.\<close>

fun join :: "jsstring \<Rightarrow> jsstring option list \<Rightarrow> jsstring" where
  "join sep [] = []"
| "join sep [x] = (case x of None \<Rightarrow> [] | Some s \<Rightarrow> s)"
| "join sep (x # y # ys) = (case x of None \<Rightarrow> [] | Some s \<Rightarrow> s) @ sep @ join sep (y # ys)"

definition pageText :: "pdf_page \<Rightarrow> jsstring" where
  "pageText page = join [space] (map item_str (text_items page))"

fun extractText_pages :: "pdf_page list \<Rightarrow> jsstring \<Rightarrow> jsstring" where
  "extractText_pages [] fullText = fullText"
| "extractText_pages (page # pages) fullText =
     extractText_pages pages (fullText @ pageText page @ [newline, newline])"

definition extractTextLocalFallback :: "pdf_file \<Rightarrow> jsstring" where
  "extractTextLocalFallback file = extractText_pages file []"

section \<open>Layout collection\<close>

text \<open>\<open>a || d\<close> on numbers: the default replaces a zero.\<close>

definition or_default :: "real \<Rightarrow> real \<Rightarrow> real" where
  "or_default a d = (if a = 0 then d else a)"

definition str_of :: "text_item \<Rightarrow> jsstring" where
  "str_of it = (case item_str it of None \<Rightarrow> [] | Some s \<Rightarrow> s)"

definition tx_of :: "text_item \<Rightarrow> real" where
  "tx_of it = (case item_transform it of None \<Rightarrow> 0 | Some (a, b, c, d, e, f) \<Rightarrow> e)"

definition ty_of :: "text_item \<Rightarrow> real" where
  "ty_of it = (case item_transform it of None \<Rightarrow> 0 | Some (a, b, c, d, e, f) \<Rightarrow> f)"

definition hCanvas_of :: "text_item \<Rightarrow> real" where
  "hCanvas_of it =
     (case item_transform it of
        Some (a, b, c, d, e, f) \<Rightarrow> \<bar>or_default d 0\<bar>
      | None \<Rightarrow> (case item_height it of None \<Rightarrow> 10 | Some h \<Rightarrow> or_default h 10))"

definition wCanvas_of :: "text_item \<Rightarrow> real" where
  "wCanvas_of it =
     (case item_width it of
        Some w \<Rightarrow> w
      | None \<Rightarrow> \<bar>case item_transform it of None \<Rightarrow> 0 | Some (a, b, c, d, e, f) \<Rightarrow> or_default a 0\<bar>)"

definition rx_of :: "pdf_page \<Rightarrow> real" where
  "rx_of page = page_width page / viewport_width page"

definition ry_of :: "pdf_page \<Rightarrow> real" where
  "ry_of page = page_height page / viewport_height page"

definition yTopPt_of :: "pdf_page \<Rightarrow> text_item \<Rightarrow> real" where
  "yTopPt_of page it = ty_of it * ry_of page"

definition hPt_of :: "pdf_page \<Rightarrow> text_item \<Rightarrow> real" where
  "hPt_of page it = hCanvas_of it * ry_of page"

definition yBottomPt_of :: "pdf_page \<Rightarrow> text_item \<Rightarrow> real" where
  "yBottomPt_of page it = max 0 (page_height page - (yTopPt_of page it + hPt_of page it))"

text \<open>The body of the inner loop: one text item appended to the layout.\<close>

definition collect_item :: "pdf_page \<Rightarrow> nat \<Rightarrow> text_item \<Rightarrow> layout \<Rightarrow> layout" where
  "collect_item page pageIndex it lay =
     (let str = str_of it;
          start = int (length (lay_text lay));
          assembled = lay_text lay @ str @ [space];
          end' = int (length assembled);
          xPt = tx_of it * rx_of page;
          hPt = hPt_of page it;
          wPt = max 1 (wCanvas_of it * rx_of page);
          yBottomPt = yBottomPt_of page it
      in lay\<lparr>lay_items := lay_items lay @
                 [\<lparr>box_start = start, box_end = end', box_pageIndex = pageIndex,
                   box_x = xPt, box_y = yBottomPt, box_width = wPt, box_height = hPt\<rparr>],
              lay_text := assembled\<rparr>)"

fun collect_items :: "pdf_page \<Rightarrow> nat \<Rightarrow> text_item list \<Rightarrow> layout \<Rightarrow> layout" where
  "collect_items page pageIndex [] lay = lay"
| "collect_items page pageIndex (it # raw) lay =
     collect_items page pageIndex raw (collect_item page pageIndex it lay)"

text \<open>The body of the outer loop: one page, then the page separator.\<close>

definition collect_page :: "pdf_page \<Rightarrow> nat \<Rightarrow> layout \<Rightarrow> layout" where
  "collect_page page pageIndex lay =
     (let lay1 = lay\<lparr>pageWidths := pageWidths lay @ [page_width page],
                     pageHeights := pageHeights lay @ [page_height page]\<rparr>;
          lay2 = (if 0 < length (text_items page)
                  then collect_items page pageIndex (text_items page) lay1
                  else lay1)
      in lay2\<lparr>lay_text := lay_text lay2 @ [newline, newline]\<rparr>)"

fun collect_pages :: "pdf_page list \<Rightarrow> nat \<Rightarrow> layout \<Rightarrow> layout" where
  "collect_pages [] pageIndex lay = lay"
| "collect_pages (page # pages) pageIndex lay =
     collect_pages pages (pageIndex + 1) (collect_page page pageIndex lay)"

definition collectSecondTextLayout :: "pdf_file \<Rightarrow> layout" where
  "collectSecondTextLayout file =
     collect_pages file 0 \<lparr>lay_items = [], lay_text = [], pageHeights = [], pageWidths = []\<rparr>"

section \<open>Word-diff segments\<close>

text \<open>
  A change object of the diff library: \<open>{added?, removed?, value}\<close>; an absent flag
  reads as false.  The library itself is outside the repository, so \<open>diffWords\<close> and
  \<open>diffLines\<close> are parameters of the functions that call them.
\<close>

record change =
  chg_added :: bool
  chg_removed :: bool
  chg_value :: jsstring

type_synonym differ = "jsstring \<Rightarrow> jsstring \<Rightarrow> change list"

datatype kind = Added | Modified

record Segment =
  seg_start :: int
  seg_end :: int
  seg_kind :: kind

text \<open>\<open>parts[k]\<close>: \<open>undefined\<close> (here \<open>None\<close>) outside the array.\<close>

definition part_at :: "change list \<Rightarrow> int \<Rightarrow> change option" where
  "part_at parts k = (if 0 \<le> k \<and> k < int (length parts) then Some (parts ! nat k) else None)"

text \<open>\<open>p && p.removed\<close> as a truth value.\<close>

definition and_removed :: "change option \<Rightarrow> bool" where
  "and_removed p = (case p of None \<Rightarrow> False | Some c \<Rightarrow> chg_removed c)"

function segments_loop :: "change list \<Rightarrow> nat \<Rightarrow> int \<Rightarrow> Segment list \<Rightarrow> Segment list" where
  "segments_loop parts i pos2 segments =
     (if i < length parts then
        (if chg_added (parts ! i) then
           (let start = pos2;
                end' = pos2 + int (length (chg_value (parts ! i)));
                prev = part_at parts (int i - 1);
                next = part_at parts (int i + 1);
                modified = (if and_removed prev \<or> and_removed next then True else False)
            in segments_loop parts (i + 1) end'
                 (segments @ [\<lparr>seg_start = start, seg_end = end',
                               seg_kind = (if modified then Modified else Added)\<rparr>]))
         else if chg_removed (parts ! i) then segments_loop parts (i + 1) pos2 segments
         else segments_loop parts (i + 1) (pos2 + int (length (chg_value (parts ! i)))) segments)
      else segments)"
  by pat_completeness auto
termination
  by (relation "measure (\<lambda>(parts, i, pos2, segments). length parts - i)") auto

declare segments_loop.simps [simp del]

definition computeAddedAndModifiedSegments :: "differ \<Rightarrow> jsstring \<Rightarrow> jsstring \<Rightarrow> Segment list" where
  "computeAddedAndModifiedSegments diffWords t1 t2 = segments_loop (diffWords t1 t2) 0 0 []"

section \<open>Annotated copy of the second document\<close>

type_synonym color = "real \<times> real \<times> real"

definition rgb :: "real \<Rightarrow> real \<Rightarrow> real \<Rightarrow> color" where
  "rgb r g b = (r, g, b)"

record rectangle =
  rect_x :: real
  rect_y :: real
  rect_width :: real
  rect_height :: real
  rect_color :: color
  rect_opacity :: real
  rect_borderColor :: color
  rect_borderOpacity :: real

text \<open>
  A page of a \<open>PDFDocument\<close>: its size and the rectangles drawn on it since it was
  loaded (the page's original content is carried along untouched and not modelled).
\<close>

record lib_page =
  lp_width :: real
  lp_height :: real
  lp_drawn :: "rectangle list"

type_synonym lib_doc = "lib_page list"

datatype error = PageIndexOutOfRange

definition load :: "pdf_file \<Rightarrow> lib_doc" where
  "load file = map (\<lambda>p. \<lparr>lp_width = page_width p, lp_height = page_height p, lp_drawn = []\<rparr>) file"

definition getPageIndices :: "lib_doc \<Rightarrow> nat list" where
  "getPageIndices doc = [0..<length doc]"

definition copyPages :: "lib_doc \<Rightarrow> nat list \<Rightarrow> lib_page list" where
  "copyPages src indices = map (\<lambda>i. src ! i) indices"

definition addPage :: "lib_page \<Rightarrow> lib_doc \<Rightarrow> lib_doc" where
  "addPage p doc = doc @ [p]"

definition getPage :: "lib_doc \<Rightarrow> nat \<Rightarrow> error + lib_page" where
  "getPage doc i = (if i < length doc then Inr (doc ! i) else Inl PageIndexOutOfRange)"

definition drawRectangle :: "rectangle \<Rightarrow> lib_page \<Rightarrow> lib_page" where
  "drawRectangle r page = page\<lparr>lp_drawn := lp_drawn page @ [r]\<rparr>"

text \<open>The two documents alive while annotating: the loaded input and the output.\<close>

record annot_docs =
  inDoc :: lib_doc
  outDoc :: lib_doc

text \<open>
  The rectangle handed to \<open>drawRectangle\<close> for a segment and a layout item that
  overlap, on a page of height \<open>pageH\<close>.
\<close>

definition highlight :: "Segment \<Rightarrow> TextItemBox \<Rightarrow> real \<Rightarrow> rectangle" where
  "highlight seg it pageH =
     (let segStart = seg_start seg;
          segEnd = seg_end seg;
          color = (if seg_kind seg = Modified then rgb 1 1 0 else rgb 0.9 0 0);
          overlapStart = max segStart (box_start it);
          overlapEnd = min segEnd (box_end it);
          fracStart = real_of_int (overlapStart - box_start it)
                        / real_of_int (max 1 (box_end it - box_start it));
          fracWidth = real_of_int (overlapEnd - overlapStart)
                        / real_of_int (max 1 (box_end it - box_start it));
          rectX = box_x it + box_width it * fracStart;
          rectW = box_width it * fracWidth;
          rectYBottom = max 0 (pageH - (box_y it + box_height it));
          rectH = max 2 (box_height it * 1.1)
      in \<lparr>rect_x = rectX, rect_y = rectYBottom, rect_width = rectW, rect_height = rectH,
          rect_color = color, rect_opacity = 0.25, rect_borderColor = color,
          rect_borderOpacity = 0.25\<rparr>)"

text \<open>
  The body of the inner loop: one segment against one layout item.  The page is looked
  up only after the overlap test, so an item that does not overlap never raises.
\<close>

definition draw_overlap :: "Segment \<Rightarrow> TextItemBox \<Rightarrow> annot_docs \<Rightarrow> error + annot_docs" where
  "draw_overlap seg it docs =
     (let overlapStart = max (seg_start seg) (box_start it);
          overlapEnd = min (seg_end seg) (box_end it)
      in if overlapEnd \<le> overlapStart then Inr docs
         else
           (case getPage (outDoc docs) (box_pageIndex it) of
              Inl e \<Rightarrow> Inl e
            | Inr page \<Rightarrow>
                Inr (docs\<lparr>outDoc := (outDoc docs)[box_pageIndex it :=
                       drawRectangle (highlight seg it (lp_height page)) page]\<rparr>)))"

fun draw_items :: "Segment \<Rightarrow> TextItemBox list \<Rightarrow> annot_docs \<Rightarrow> error + annot_docs" where
  "draw_items seg [] docs = Inr docs"
| "draw_items seg (it # items) docs =
     (case draw_overlap seg it docs of Inl e \<Rightarrow> Inl e | Inr docs' \<Rightarrow> draw_items seg items docs')"

fun draw_segments :: "Segment list \<Rightarrow> TextItemBox list \<Rightarrow> annot_docs \<Rightarrow> error + annot_docs" where
  "draw_segments [] items docs = Inr docs"
| "draw_segments (seg # segments) items docs =
     (case draw_items seg items docs of Inl e \<Rightarrow> Inl e | Inr docs' \<Rightarrow> draw_segments segments items docs')"

definition createAnnotatedSecondPdf ::
  "differ \<Rightarrow> jsstring \<Rightarrow> jsstring \<Rightarrow> pdf_file \<Rightarrow> error + annot_docs" where
  "createAnnotatedSecondPdf diffWords t1 t2 fileSecond =
     (let segments = computeAddedAndModifiedSegments diffWords t1 t2;
          lay = collectSecondTextLayout fileSecond;
          inD = load fileSecond;
          srcPages = copyPages inD (getPageIndices inD);
          outD = fold addPage srcPages []
      in draw_segments segments (lay_items lay) \<lparr>inDoc = inD, outDoc = outD\<rparr>)"

section \<open>Line diff rows\<close>

datatype line_type = Unchanged | ModifiedLine | AddedLine | RemovedLine

record DiffLine =
  lineNumber1 :: int
  lineNumber2 :: int
  dl_text1 :: jsstring
  dl_text2 :: jsstring
  dl_type :: line_type

text \<open>\<open>s.split("\n")\<close>: always at least one piece.\<close>

fun split_lines :: "jsstring \<Rightarrow> jsstring list" where
  "split_lines [] = [[]]"
| "split_lines (c # cs) =
     (if c = newline then [] # split_lines cs
      else (case split_lines cs of [] \<Rightarrow> [[c]] | l # ls \<Rightarrow> (c # l) # ls))"

record linediff =
  ld_result :: "DiffLine list"
  index1 :: int
  index2 :: int

text \<open>
  The three inner loops over the lines of one part; the test
  \<open>i === lines.length - 1 && !lines[i]\<close> holds at the last line when it is empty.
\<close>

fun unchanged_rows :: "jsstring list \<Rightarrow> linediff \<Rightarrow> linediff" where
  "unchanged_rows [] st = st"
| "unchanged_rows (l # ls) st =
     (if ls = [] \<and> l = [] then unchanged_rows ls st
      else unchanged_rows ls
        (st\<lparr>ld_result := ld_result st @
               [\<lparr>lineNumber1 = index1 st + 1, lineNumber2 = index2 st + 1,
                 dl_text1 = l, dl_text2 = l, dl_type = Unchanged\<rparr>],
            index1 := index1 st + 1, index2 := index2 st + 1\<rparr>))"

fun removed_rows :: "jsstring list \<Rightarrow> linediff \<Rightarrow> linediff" where
  "removed_rows [] st = st"
| "removed_rows (l # ls) st =
     (if ls = [] \<and> l = [] then removed_rows ls st
      else removed_rows ls
        (st\<lparr>ld_result := ld_result st @
               [\<lparr>lineNumber1 = index1 st + 1, lineNumber2 = - 1,
                 dl_text1 = l, dl_text2 = [], dl_type = RemovedLine\<rparr>],
            index1 := index1 st + 1\<rparr>))"

fun added_rows :: "jsstring list \<Rightarrow> linediff \<Rightarrow> linediff" where
  "added_rows [] st = st"
| "added_rows (l # ls) st =
     (if ls = [] \<and> l = [] then added_rows ls st
      else added_rows ls
        (st\<lparr>ld_result := ld_result st @
               [\<lparr>lineNumber1 = - 1, lineNumber2 = index2 st + 1,
                 dl_text1 = [], dl_text2 = l, dl_type = AddedLine\<rparr>],
            index2 := index2 st + 1\<rparr>))"

fun lineDiff_parts :: "change list \<Rightarrow> linediff \<Rightarrow> linediff" where
  "lineDiff_parts [] st = st"
| "lineDiff_parts (part # differences) st =
     (let lines = split_lines (chg_value part)
      in lineDiff_parts differences
           (if \<not> chg_added part \<and> \<not> chg_removed part then unchanged_rows lines st
            else if chg_removed part then removed_rows lines st
            else if chg_added part then added_rows lines st
            else st))"

definition createLineDiff :: "differ \<Rightarrow> jsstring \<Rightarrow> jsstring \<Rightarrow> DiffLine list" where
  "createLineDiff diffLines t1 t2 =
     ld_result (lineDiff_parts (diffLines t1 t2) \<lparr>ld_result = [], index1 = 0, index2 = 0\<rparr>)"

section \<open>Text sanitising for the report font\<close>

text \<open>
  \<open>s.replace(/[lo-hi]/g, f)\<close> for a one-character class and a callback: the regular
  expression has no \<open>u\<close> flag, so it matches single code units.
\<close>

fun replace_class :: "jschar \<Rightarrow> jschar \<Rightarrow> (jsstring \<Rightarrow> jsstring) \<Rightarrow> jsstring \<Rightarrow> jsstring" where
  "replace_class lo hi f [] = []"
| "replace_class lo hi f (c # s) =
     (if lo \<le> c \<and> c \<le> hi then f [c] else [c]) @ replace_class lo hi f s"

definition sanitizeTextForWinAnsi :: "jsstring \<Rightarrow> jsstring" where
  "sanitizeTextForWinAnsi s =
     replace_class 0x0080 0xFFFF (\<lambda>ch. if ch = [0x27A2] then [0x2D] else [0x3F]) s"

text \<open>
  The code points of a string, as the language's string iteration reads them: a high
  surrogate followed by a low surrogate is one code point, any other code unit is one.
\<close>

fun codePoints :: "jsstring \<Rightarrow> nat list" where
  "codePoints [] = []"
| "codePoints [c] = [unat c]"
| "codePoints (c # d # s) =
     (if 0xD800 \<le> c \<and> c \<le> 0xDBFF \<and> 0xDC00 \<le> d \<and> d \<le> 0xDFFF
      then (0x10000 + (unat c - 0xD800) * 0x400 + (unat d - 0xDC00)) # codePoints s
      else unat c # codePoints (d # s))"

section \<open>Reference definitions and sample inputs\<close>

text \<open>
  The value of the counter \<open>pos2\<close> when the walk reaches part \<open>i\<close>, read off the
  specification: added and unchanged parts before \<open>i\<close> advance it by their length,
  removed parts do not.
\<close>

definition spec_pos2 :: "change list \<Rightarrow> nat \<Rightarrow> int" where
  "spec_pos2 parts i =
     (\<Sum>j<i. if chg_added (parts ! j) then int (length (chg_value (parts ! j)))
             else if chg_removed (parts ! j) then 0
             else int (length (chg_value (parts ! j))))"

text \<open>
  The text items of a file in reading order, each with its page index and its page.
\<close>

definition page_items :: "pdf_file \<Rightarrow> (nat \<times> pdf_page \<times> text_item) list" where
  "page_items file =
     concat (map (\<lambda>(k, page). map (\<lambda>it. (k, page, it)) (text_items page)) (enumerate 0 file))"

text \<open>The overlap test of the inner drawing loop lets the pair through.\<close>

definition overlaps :: "Segment \<Rightarrow> TextItemBox \<Rightarrow> bool" where
  "overlaps seg it \<longleftrightarrow> max (seg_start seg) (box_start it) < min (seg_end seg) (box_end it)"

text \<open>
  \<open>drawn_more docs docs' new\<close>: from \<open>docs\<close> to \<open>docs'\<close> the input document is
  untouched, the output document keeps its pages and their sizes, and page \<open>k\<close> of height
  \<open>h\<close> has gained exactly the rectangles \<open>new k h\<close>, appended in order.
\<close>

definition drawn_more :: "annot_docs \<Rightarrow> annot_docs \<Rightarrow> (nat \<Rightarrow> real \<Rightarrow> rectangle list) \<Rightarrow> bool" where
  "drawn_more docs docs' new \<longleftrightarrow>
     inDoc docs' = inDoc docs \<and>
     length (outDoc docs') = length (outDoc docs) \<and>
     (\<forall>k<length (outDoc docs).
        lp_width (outDoc docs' ! k) = lp_width (outDoc docs ! k) \<and>
        lp_height (outDoc docs' ! k) = lp_height (outDoc docs ! k) \<and>
        lp_drawn (outDoc docs' ! k) =
          lp_drawn (outDoc docs ! k) @ new k (lp_height (outDoc docs ! k)))"

text \<open>
  The offset extents of a layout are in order, none is empty, and none reaches beyond
  the text assembled so far.
\<close>

definition offsets_ok :: "layout \<Rightarrow> bool" where
  "offsets_ok lay \<longleftrightarrow>
     sorted_wrt (\<lambda>a b. box_end a \<le> box_start b) (lay_items lay) \<and>
     (\<forall>b\<in>set (lay_items lay). box_start b < box_end b \<and> box_end b \<le> int (length (lay_text lay)))"

text \<open>
  The rectangles on page \<open>k\<close> of an annotation result; none when annotating failed.
\<close>

definition drawn_on :: "error + annot_docs \<Rightarrow> nat \<Rightarrow> rectangle list" where
  "drawn_on res k = (case res of Inl e \<Rightarrow> [] | Inr docs \<Rightarrow> lp_drawn (outDoc docs ! k))"

text \<open>A one-page file holding the single text item \<open>"a"\<close>, and an empty page.\<close>

definition sample_item :: text_item where
  "sample_item = \<lparr>item_str = Some [0x61], item_transform = Some (1, 0, 0, 20, 0, 10),
                   item_width = Some 50, item_height = Some 20\<rparr>"

definition sample_page :: pdf_page where
  "sample_page = \<lparr>page_width = 100, page_height = 100, viewport_width = 100,
                   viewport_height = 100, text_items = [sample_item]\<rparr>"

definition blank_page :: pdf_page where
  "blank_page = \<lparr>page_width = 100, page_height = 100, viewport_width = 100,
                  viewport_height = 100, text_items = []\<rparr>"

text \<open>A page whose only text item has the empty string.\<close>

definition empty_item :: text_item where
  "empty_item = \<lparr>item_str = Some [], item_transform = Some (1, 0, 0, 20, 0, 10),
                  item_width = Some 50, item_height = Some 20\<rparr>"

definition empty_item_page :: pdf_page where
  "empty_item_page = \<lparr>page_width = 100, page_height = 100, viewport_width = 100,
                       viewport_height = 100, text_items = [empty_item]\<rparr>"

text \<open>
  A stand-in for the diff library on the sample inputs: the longest common prefix of the
  two texts is reported as unchanged, what is left of the first text as removed and what
  is left of the second as added; empty parts are left out.
\<close>

fun common_prefix :: "jsstring \<Rightarrow> jsstring \<Rightarrow> jsstring" where
  "common_prefix (a # s) (b # t) = (if a = b then a # common_prefix s t else [])"
| "common_prefix s t = []"

definition prefix_diff :: differ where
  "prefix_diff t1 t2 =
     (let p = common_prefix t1 t2;
          r1 = drop (length p) t1;
          r2 = drop (length p) t2
      in (if p = [] then [] else [\<lparr>chg_added = False, chg_removed = False, chg_value = p\<rparr>]) @
         (if r1 = [] then [] else [\<lparr>chg_added = False, chg_removed = True, chg_value = r1\<rparr>]) @
         (if r2 = [] then [] else [\<lparr>chg_added = True, chg_removed = False, chg_value = r2\<rparr>]))"

text \<open>
  A stand-in for the font encoding on the sample inputs.  Which code units the output
  font can encode is decided by the PDF library, outside the repository; the stand-in
  takes the printable code units of ASCII and of Latin-1, which include the accented
  letters of the headings the report draws without sanitising.
\<close>

definition sample_encodable :: "jschar \<Rightarrow> bool" where
  "sample_encodable c \<longleftrightarrow> (0x20 \<le> c \<and> c \<le> 0x7E) \<or> (0xA0 \<le> c \<and> c \<le> 0xFF)"

section \<open>The assembled texts\<close>

lemma collect_item_items:
  "lay_items (collect_item page k it lay) = lay_items lay @
     [\<lparr>box_start = int (length (lay_text lay)),
       box_end = int (length (lay_text lay)) + int (length (str_of it)) + 1,
       box_pageIndex = k, box_x = tx_of it * rx_of page, box_y = yBottomPt_of page it,
       box_width = max 1 (wCanvas_of it * rx_of page), box_height = hPt_of page it\<rparr>]"
  by (simp add: collect_item_def Let_def)

lemma collect_item_text:
  "lay_text (collect_item page k it lay) = lay_text lay @ str_of it @ [space]"
  by (simp add: collect_item_def Let_def)

lemma extractText_pages_acc:
  "extractText_pages pages acc = acc @ concat (map (\<lambda>p. pageText p @ [newline, newline]) pages)"
  by (induction pages arbitrary: acc) simp_all

lemma collect_items_text:
  "lay_text (collect_items page k raw lay) = lay_text lay @ concat (map (\<lambda>it. str_of it @ [space]) raw)"
  by (induction raw arbitrary: lay) (simp_all add: collect_item_text)

lemma collect_page_text:
  "lay_text (collect_page page k lay) =
     lay_text lay @ concat (map (\<lambda>it. str_of it @ [space]) (text_items page)) @ [newline, newline]"
  by (simp add: collect_page_def Let_def collect_items_text)

lemma collect_pages_text:
  "lay_text (collect_pages pages k lay) =
     lay_text lay @ concat (map (\<lambda>p. concat (map (\<lambda>it. str_of it @ [space]) (text_items p)) @ [newline, newline]) pages)"
  by (induction pages arbitrary: k lay) (simp_all add: collect_page_text)

lemma length_join:
  "length (join [space] (map item_str its)) + (if its = [] then 0 else 1) =
     length (concat (map (\<lambda>it. str_of it @ [space]) its))"
proof (induction its rule: induct_list012)
  case 1 show ?case by simp
next
  case (2 x) show ?case by (simp add: str_of_def)
next
  case (3 x y zs)
  then show ?case by (simp add: str_of_def)
qed

text \<open>
  The text assembled by the layout collection is longer than the text of the local
  extraction by one code unit for every page that has text items.
\<close>

lemma length_layout_vs_fallback:
  "length (lay_text (collectSecondTextLayout file)) =
     length (extractTextLocalFallback file) + length (filter (\<lambda>p. text_items p \<noteq> []) file)"
proof -
  have "length (concat (map (\<lambda>p. concat (map (\<lambda>it. str_of it @ [space]) (text_items p)) @ [newline, newline]) ps))
      = length (concat (map (\<lambda>p. pageText p @ [newline, newline]) ps)) + length (filter (\<lambda>p. text_items p \<noteq> []) ps)" for ps
  proof (induction ps)
    case Nil show ?case by simp
  next
    case (Cons p ps)
    have "length (concat (map (\<lambda>it. str_of it @ [space]) (text_items p)))
        = length (pageText p) + (if text_items p = [] then 0 else 1)"
      using length_join [of "text_items p"] by (simp add: pageText_def)
    with Cons show ?case by simp
  qed
  then show ?thesis
    by (simp add: collectSecondTextLayout_def extractTextLocalFallback_def collect_pages_text extractText_pages_acc)
qed

text \<open>
  C1.  The claim: the text of the local extraction and the text assembled by the layout
  collection are the same string.  On the one-page file holding the single item \<open>"a"\<close>
  the local extraction returns \<open>"a\n\n"\<close> and the layout collection assembles
  \<open>"a \n\n"\<close>: the layout appends a space after the last item of a page, the join of
  the local extraction does not.
\<close>

theorem C1_layout_text_differs_from_fallback_text:
  "extractTextLocalFallback [sample_page] = [0x61, 0x0A, 0x0A] \<and>
   lay_text (collectSecondTextLayout [sample_page]) = [0x61, 0x20, 0x0A, 0x0A]"
  by (simp add: extractTextLocalFallback_def pageText_def collectSecondTextLayout_def
      collect_page_def collect_item_def str_of_def sample_page_def sample_item_def
      newline_def space_def Let_def)

section \<open>The layout items\<close>

lemma collect_items_props:
  "map (\<lambda>b. (box_pageIndex b, box_end b - box_start b, box_x b, box_y b, box_width b, box_height b))
       (lay_items (collect_items page k raw lay)) =
   map (\<lambda>b. (box_pageIndex b, box_end b - box_start b, box_x b, box_y b, box_width b, box_height b))
       (lay_items lay) @
   map (\<lambda>it. (k, int (length (str_of it)) + 1, tx_of it * rx_of page, yBottomPt_of page it,
              max 1 (wCanvas_of it * rx_of page), hPt_of page it)) raw"
  by (induction raw arbitrary: lay) (simp_all add: collect_item_items)

lemma collect_page_props:
  "map (\<lambda>b. (box_pageIndex b, box_end b - box_start b, box_x b, box_y b, box_width b, box_height b))
       (lay_items (collect_page page k lay)) =
   map (\<lambda>b. (box_pageIndex b, box_end b - box_start b, box_x b, box_y b, box_width b, box_height b))
       (lay_items lay) @
   map (\<lambda>it. (k, int (length (str_of it)) + 1, tx_of it * rx_of page, yBottomPt_of page it,
              max 1 (wCanvas_of it * rx_of page), hPt_of page it)) (text_items page)"
  by (simp add: collect_page_def Let_def collect_items_props)

lemma collect_pages_props:
  "map (\<lambda>b. (box_pageIndex b, box_end b - box_start b, box_x b, box_y b, box_width b, box_height b))
       (lay_items (collect_pages pages k lay)) =
   map (\<lambda>b. (box_pageIndex b, box_end b - box_start b, box_x b, box_y b, box_width b, box_height b))
       (lay_items lay) @
   map (\<lambda>(j, page, it). (j, int (length (str_of it)) + 1, tx_of it * rx_of page,
              yBottomPt_of page it, max 1 (wCanvas_of it * rx_of page), hPt_of page it))
       (concat (map (\<lambda>(j, page). map (\<lambda>it. (j, page, it)) (text_items page)) (enumerate k pages)))"
  by (induction pages arbitrary: k lay) (simp_all add: collect_page_props comp_def)

lemma layout_props:
  "map (\<lambda>b. (box_pageIndex b, box_end b - box_start b, box_x b, box_y b, box_width b, box_height b))
       (lay_items (collectSecondTextLayout file)) =
   map (\<lambda>(j, page, it). (j, int (length (str_of it)) + 1, tx_of it * rx_of page,
              yBottomPt_of page it, max 1 (wCanvas_of it * rx_of page), hPt_of page it))
       (page_items file)"
  by (simp add: collectSecondTextLayout_def page_items_def collect_pages_props)

lemma page_items_index:
  "(j, page, it) \<in> set (page_items file) \<Longrightarrow> j < length file \<and> page = file ! j \<and> it \<in> set (text_items page)"
  by (auto simp: page_items_def in_set_enumerate_eq)

lemma layout_pageIndex:
  assumes "b \<in> set (lay_items (collectSecondTextLayout file))"
  shows "box_pageIndex b < length file"
proof -
  from assms have "box_pageIndex b \<in> set (map box_pageIndex (lay_items (collectSecondTextLayout file)))"
    by simp
  also have "map box_pageIndex (lay_items (collectSecondTextLayout file)) =
             map fst (map (\<lambda>b. (box_pageIndex b, box_end b - box_start b, box_x b, box_y b, box_width b, box_height b))
       (lay_items (collectSecondTextLayout file)))" by (simp add: comp_def)
  also have "\<dots> = map fst (page_items file)"
    by (simp add: layout_props comp_def case_prod_unfold)
  finally obtain j page it where "(j, page, it) \<in> set (page_items file)" "j = box_pageIndex b"
    by auto
  then show ?thesis using page_items_index by blast
qed

lemma collect_item_ok: "offsets_ok lay \<Longrightarrow> offsets_ok (collect_item page k it lay)"
  by (auto simp: offsets_ok_def collect_item_items collect_item_text sorted_wrt_append)

lemma collect_items_ok: "offsets_ok lay \<Longrightarrow> offsets_ok (collect_items page k raw lay)"
  by (induction raw arbitrary: lay) (simp_all add: collect_item_ok)

lemma collect_page_ok: "offsets_ok lay \<Longrightarrow> offsets_ok (collect_page page k lay)"
proof -
  assume ok: "offsets_ok lay"
  have 1: "offsets_ok (lay\<lparr>pageWidths := w, pageHeights := h\<rparr>)" for w h
    using ok by (simp add: offsets_ok_def)
  have 2: "offsets_ok l \<Longrightarrow> offsets_ok (l\<lparr>lay_text := lay_text l @ [newline, newline]\<rparr>)" for l
    by (auto simp: offsets_ok_def)
  show ?thesis
    unfolding collect_page_def Let_def
    by (rule 2) (simp add: 1 collect_items_ok)
qed

lemma collect_pages_ok: "offsets_ok lay \<Longrightarrow> offsets_ok (collect_pages pages k lay)"
  by (induction pages arbitrary: k lay) (simp_all add: collect_page_ok)

lemma layout_ok: "offsets_ok (collectSecondTextLayout file)"
  unfolding collectSecondTextLayout_def
  by (rule collect_pages_ok) (simp add: offsets_ok_def)


text \<open>
  C7.  In emission order the offset extent of every layout item ends no later than the
  next one starts, and every extent is non-empty.
\<close>

theorem C7_layout_offsets_monotonic:
  "(\<forall>i. i + 1 < length (lay_items (collectSecondTextLayout file)) \<longrightarrow>
      box_end (lay_items (collectSecondTextLayout file) ! i)
        \<le> box_start (lay_items (collectSecondTextLayout file) ! (i + 1))) \<and>
   (\<forall>run\<in>set (lay_items (collectSecondTextLayout file)). box_start run < box_end run)"
  using layout_ok [of "file"] by (auto simp: offsets_ok_def sorted_wrt_iff_nth_less)

theorem C7_layout_offsets_monotonic_witness:
  "0 + 1 < length (lay_items (collectSecondTextLayout [sample_page, blank_page, sample_page])) \<and>
   box_end (lay_items (collectSecondTextLayout [sample_page, blank_page, sample_page]) ! 0)
     \<le> box_start (lay_items (collectSecondTextLayout [sample_page, blank_page, sample_page]) ! (0 + 1)) \<and>
   box_start (lay_items (collectSecondTextLayout [sample_page, blank_page, sample_page]) ! 0)
     < box_end (lay_items (collectSecondTextLayout [sample_page, blank_page, sample_page]) ! 0)"
proof -
  have len: "length (lay_items (collectSecondTextLayout [sample_page, blank_page, sample_page])) = 2"
    by (simp add: collectSecondTextLayout_def collect_page_def collect_item_def Let_def
        sample_page_def blank_page_def)
  then have mem: "lay_items (collectSecondTextLayout [sample_page, blank_page, sample_page]) ! 0
      \<in> set (lay_items (collectSecondTextLayout [sample_page, blank_page, sample_page]))"
    by simp
  show ?thesis
    using C7_layout_offsets_monotonic [of "[sample_page, blank_page, sample_page]"] len mem
    by simp
qed

section \<open>The segments of the word diff\<close>

lemma spec_pos2_Suc:
  "spec_pos2 parts (Suc i) = spec_pos2 parts i +
     (if chg_added (parts ! i) then int (length (chg_value (parts ! i)))
      else if chg_removed (parts ! i) then 0 else int (length (chg_value (parts ! i))))"
  by (simp add: spec_pos2_def)

lemma and_removed_prev:
  "i < length parts \<Longrightarrow> and_removed (part_at parts (int i - 1)) = (0 < i \<and> chg_removed (parts ! (i - 1)))"
  by (cases i) (auto simp: and_removed_def part_at_def nat_diff_distrib)

lemma and_removed_next:
  "and_removed (part_at parts (int i + 1)) = (i + 1 < length parts \<and> chg_removed (parts ! (i + 1)))"
  by (auto simp: and_removed_def part_at_def nat_add_distrib)

lemma segments_loop_closed:
  "i \<le> length parts \<Longrightarrow>
   segments_loop parts i (spec_pos2 parts i) segs =
   segs @ [\<lparr>seg_start = spec_pos2 parts j,
         seg_end = spec_pos2 parts j + int (length (chg_value (parts ! j))),
         seg_kind = (if (0 < j \<and> chg_removed (parts ! (j - 1)))
                        \<or> (j + 1 < length parts \<and> chg_removed (parts ! (j + 1)))
                     then Modified else Added)\<rparr>. j \<leftarrow> [i..<length parts], chg_added (parts ! j)]"
proof (induction "length parts - i" arbitrary: i segs)
  case 0
  then show ?case by (simp add: segments_loop.simps)
next
  case (Suc n)
  then have lt: "i < length parts" and n: "n = length parts - Suc i" and le: "Suc i \<le> length parts" by auto
  note IH = Suc.hyps(1) [OF n le]
  have upt: "[i..<length parts] = i # [Suc i..<length parts]" using lt by (simp add: upt_conv_Cons)
  let ?seg = "\<lambda>j. \<lparr>seg_start = spec_pos2 parts j,
         seg_end = spec_pos2 parts j + int (length (chg_value (parts ! j))),
         seg_kind = (if (0 < j \<and> chg_removed (parts ! (j - 1)))
                        \<or> (j + 1 < length parts \<and> chg_removed (parts ! (j + 1)))
                     then Modified else Added)\<rparr>"
  show ?case
  proof (cases "chg_added (parts ! i)")
    case True
    then have p: "spec_pos2 parts (Suc i) = spec_pos2 parts i + int (length (chg_value (parts ! i)))"
      by (simp add: spec_pos2_Suc)
    have "segments_loop parts i (spec_pos2 parts i) segs =
          segments_loop parts (Suc i) (spec_pos2 parts (Suc i)) (segs @ [?seg i])"
      by (subst segments_loop.simps)
         (simp add: lt True Let_def p and_removed_prev and_removed_next)
    then show ?thesis using True by (simp add: IH upt)
  next
    case False
    note na = this
    show ?thesis
    proof (cases "chg_removed (parts ! i)")
      case True
      then have p: "spec_pos2 parts (Suc i) = spec_pos2 parts i"
        by (simp add: spec_pos2_Suc na)
      have "segments_loop parts i (spec_pos2 parts i) segs =
            segments_loop parts (Suc i) (spec_pos2 parts (Suc i)) segs"
        by (subst segments_loop.simps) (simp add: lt True na p)
      then show ?thesis using na by (simp add: IH upt)
    next
      case False
      then have p: "spec_pos2 parts (Suc i) = spec_pos2 parts i + int (length (chg_value (parts ! i)))"
        by (simp add: spec_pos2_Suc na)
      have "segments_loop parts i (spec_pos2 parts i) segs =
            segments_loop parts (Suc i) (spec_pos2 parts (Suc i)) segs"
        by (subst segments_loop.simps) (simp add: lt False na p)
      then show ?thesis using na by (simp add: IH upt)
    qed
  qed
qed

text \<open>
  C2.  The segments are those of one walk over the parts of the word diff with the
  counter \<open>pos2\<close>: exactly the added parts emit a segment, in order, from the value of
  \<open>pos2\<close> on arrival to that value plus the length of the part; \<open>pos2\<close> is the total
  length of the added and unchanged parts passed so far (removed parts leave it as it
  is); and a segment is \<open>Modified\<close> exactly when the part just before or just after its
  part is removed, \<open>Added\<close> otherwise.
\<close>

theorem C2_segments_of_the_walk:
  assumes "parts = diffWords t1 t2"
  shows "computeAddedAndModifiedSegments diffWords t1 t2 =
     [\<lparr>seg_start = spec_pos2 parts i,
       seg_end = spec_pos2 parts i + int (length (chg_value (parts ! i))),
       seg_kind = (if (0 < i \<and> chg_removed (parts ! (i - 1)))
                      \<or> (i + 1 < length parts \<and> chg_removed (parts ! (i + 1)))
                   then Modified else Added)\<rparr>.
      i \<leftarrow> [0..<length parts], chg_added (parts ! i)]"
proof -
  have "spec_pos2 parts 0 = 0" by (simp add: spec_pos2_def)
  then show ?thesis
    using segments_loop_closed [of 0 parts "[]"] assms
    by (simp add: computeAddedAndModifiedSegments_def)
qed

theorem C2_segments_of_the_walk_witness:
  "computeAddedAndModifiedSegments prefix_diff [0x41, 0x20, 0x42] [0x41, 0x20, 0x43] =
     [\<lparr>seg_start = 2, seg_end = 3, seg_kind = Modified\<rparr>]"
proof -
  have parts: "prefix_diff [0x41, 0x20, 0x42] [0x41, 0x20, 0x43] =
      [\<lparr>chg_added = False, chg_removed = False, chg_value = [0x41, 0x20]\<rparr>,
       \<lparr>chg_added = False, chg_removed = True, chg_value = [0x42]\<rparr>,
       \<lparr>chg_added = True, chg_removed = False, chg_value = [0x43]\<rparr>]"
    by (simp add: prefix_diff_def)
  have upt: "[0..<3] = [0, Suc 0, 2]" by (simp add: upt_rec)
  have two: "spec_pos2 ps 2 = spec_pos2 ps (Suc (Suc 0))" for ps by (simp add: numeral_2_eq_2)
  show ?thesis
    using C2_segments_of_the_walk [OF refl, of prefix_diff "[0x41, 0x20, 0x42]" "[0x41, 0x20, 0x43]"]
    by (simp add: parts upt two spec_pos2_Suc) (simp add: spec_pos2_def)
qed

section \<open>Drawing the highlights\<close>


lemma drawn_more_refl: "drawn_more docs docs (\<lambda>k h. [])"
  by (simp add: drawn_more_def)

lemma drawn_more_trans:
  "drawn_more a b f \<Longrightarrow> drawn_more b c g \<Longrightarrow> drawn_more a c (\<lambda>k h. f k h @ g k h)"
  by (simp add: drawn_more_def)

lemma draw_overlap_more:
  assumes "box_pageIndex it < length (outDoc docs)"
  shows "\<exists>docs'. draw_overlap seg it docs = Inr docs' \<and>
           drawn_more docs docs'
             (\<lambda>k h. if box_pageIndex it = k \<and>
                        overlaps seg it
                     then [highlight seg it h] else [])"
  using assms
  by (auto simp: draw_overlap_def Let_def getPage_def drawn_more_def drawRectangle_def
      nth_list_update not_le overlaps_def)

lemma draw_items_more:
  assumes "\<forall>it\<in>set items. box_pageIndex it < length (outDoc docs)"
  shows "\<exists>docs'. draw_items seg items docs = Inr docs' \<and>
           drawn_more docs docs'
             (\<lambda>k h. [highlight seg it h. it \<leftarrow> items,
                       box_pageIndex it = k \<and>
                       overlaps seg it])"
  using assms
proof (induction items arbitrary: docs)
  case Nil
  show ?case by (simp add: drawn_more_refl)
next
  case (Cons it items)
  from Cons.prems obtain d1 where
    d1: "draw_overlap seg it docs = Inr d1" and
    m1: "drawn_more docs d1 (\<lambda>k h. if box_pageIndex it = k \<and>
                        overlaps seg it
                     then [highlight seg it h] else [])"
    using draw_overlap_more [of it docs seg] by auto
  have len: "length (outDoc d1) = length (outDoc docs)" using m1 by (simp add: drawn_more_def)
  with Cons.prems have "\<forall>it\<in>set items. box_pageIndex it < length (outDoc d1)" by simp
  from Cons.IH [OF this] obtain d2 where
    d2: "draw_items seg items d1 = Inr d2" and
    m2: "drawn_more d1 d2 (\<lambda>k h. [highlight seg it h. it \<leftarrow> items,
                       box_pageIndex it = k \<and>
                       overlaps seg it])"
    by auto
  have "drawn_more docs d2 (\<lambda>k h. [highlight seg it h. it \<leftarrow> it # items,
                       box_pageIndex it = k \<and>
                       overlaps seg it])"
    using drawn_more_trans [OF m1 m2] by simp
  with d1 d2 show ?case by simp
qed

lemma draw_segments_more:
  assumes "\<forall>it\<in>set items. box_pageIndex it < length (outDoc docs)"
  shows "\<exists>docs'. draw_segments segments items docs = Inr docs' \<and>
           drawn_more docs docs'
             (\<lambda>k h. [highlight seg it h. seg \<leftarrow> segments, it \<leftarrow> items,
                       box_pageIndex it = k \<and>
                       overlaps seg it])"
  using assms
proof (induction segments arbitrary: docs)
  case Nil
  show ?case by (simp add: drawn_more_refl)
next
  case (Cons seg segments)
  from Cons.prems obtain d1 where
    d1: "draw_items seg items docs = Inr d1" and
    m1: "drawn_more docs d1 (\<lambda>k h. [highlight seg it h. it \<leftarrow> items,
                       box_pageIndex it = k \<and>
                       overlaps seg it])"
    using draw_items_more [of items docs seg] by auto
  have len: "length (outDoc d1) = length (outDoc docs)" using m1 by (simp add: drawn_more_def)
  with Cons.prems have "\<forall>it\<in>set items. box_pageIndex it < length (outDoc d1)" by simp
  from Cons.IH [OF this] obtain d2 where
    d2: "draw_segments segments items d1 = Inr d2" and
    m2: "drawn_more d1 d2 (\<lambda>k h. [highlight seg it h. seg \<leftarrow> segments, it \<leftarrow> items,
                       box_pageIndex it = k \<and>
                       overlaps seg it])"
    by auto
  have "drawn_more docs d2 (\<lambda>k h. [highlight seg it h. seg \<leftarrow> seg # segments, it \<leftarrow> items,
                       box_pageIndex it = k \<and>
                       overlaps seg it])"
    using drawn_more_trans [OF m1 m2] by simp
  with d1 d2 show ?case by simp
qed

lemma copy_all_pages: "fold addPage (copyPages doc (getPageIndices doc)) [] = doc"
proof -
  have "fold addPage ps acc = acc @ ps" for ps acc
    by (induction ps arbitrary: acc) (simp_all add: addPage_def)
  then show ?thesis by (simp add: copyPages_def getPageIndices_def map_nth)
qed


lemma load_sizes:
  "length (load file) = length file"
  "k < length file \<Longrightarrow> lp_width (load file ! k) = page_width (file ! k)"
  "k < length file \<Longrightarrow> lp_height (load file ! k) = page_height (file ! k)"
  "k < length file \<Longrightarrow> lp_drawn (load file ! k) = []"
  by (simp_all add: load_def)

lemma createAnnotated_more:
  "\<exists>docs. createAnnotatedSecondPdf diffWords t1 t2 file = Inr docs \<and>
     drawn_more \<lparr>inDoc = load file, outDoc = load file\<rparr> docs
       (\<lambda>k h. [highlight seg it h.
                 seg \<leftarrow> computeAddedAndModifiedSegments diffWords t1 t2,
                 it \<leftarrow> lay_items (collectSecondTextLayout file),
                 box_pageIndex it = k \<and>
                 overlaps seg it])"
proof -
  have "\<forall>it\<in>set (lay_items (collectSecondTextLayout file)).
          box_pageIndex it < length (outDoc \<lparr>inDoc = load file, outDoc = load file\<rparr>)"
    by (simp add: layout_pageIndex load_sizes)
  from draw_segments_more [OF this] show ?thesis
    by (simp add: createAnnotatedSecondPdf_def Let_def copy_all_pages)
qed

lemma createAnnotated_drawn:
  assumes "k < length file"
  shows "\<exists>docs. createAnnotatedSecondPdf diffWords t1 t2 file = Inr docs \<and>
     lp_drawn (outDoc docs ! k) =
       [highlight seg it (page_height (file ! k)).
          seg \<leftarrow> computeAddedAndModifiedSegments diffWords t1 t2,
          it \<leftarrow> lay_items (collectSecondTextLayout file),
          box_pageIndex it = k \<and>
          overlaps seg it]"
  using createAnnotated_more [of diffWords t1 t2 "file"] assms
  by (auto simp: drawn_more_def load_sizes cong: if_cong)

lemma map_highlights:
  "map g [h seg it. seg \<leftarrow> segs, it \<leftarrow> items, P seg it] =
     [g (h seg it). seg \<leftarrow> segs, it \<leftarrow> items, P seg it]"
  by (simp add: map_concat comp_def if_distrib [of "map g"] cong: if_cong)

lemma sample_layout_items:
  "lay_items (collectSecondTextLayout [sample_page]) =
     [\<lparr>box_start = 0, box_end = 2, box_pageIndex = 0, box_x = 0, box_y = 70,
       box_width = 50, box_height = 20\<rparr>]"
  by (simp add: collectSecondTextLayout_def collect_page_def collect_item_def str_of_def
      sample_page_def sample_item_def Let_def tx_of_def rx_of_def hPt_of_def hCanvas_of_def
      or_default_def ry_of_def wCanvas_of_def yBottomPt_of_def yTopPt_of_def ty_of_def)

lemma empty_item_layout_items:
  "lay_items (collectSecondTextLayout [empty_item_page]) =
     [\<lparr>box_start = 0, box_end = 1, box_pageIndex = 0, box_x = 0, box_y = 70,
       box_width = 50, box_height = 20\<rparr>]"
  by (simp add: collectSecondTextLayout_def collect_page_def collect_item_def str_of_def
      empty_item_page_def empty_item_def Let_def tx_of_def rx_of_def hPt_of_def hCanvas_of_def
      or_default_def ry_of_def wCanvas_of_def yBottomPt_of_def yTopPt_of_def ty_of_def)

lemma sample_page_height:
  "page_height sample_page = 100" "page_height empty_item_page = 100"
  by (simp_all add: sample_page_def empty_item_page_def)

lemma sample_page_items:
  "map (\<lambda>(j, page, it).
          (max 0 (page_height page - (yTopPt_of page it + hPt_of page it)), hPt_of page it))
       (page_items [sample_page]) = [(70, 20)]"
  by (simp add: page_items_def sample_page_def sample_item_def yTopPt_of_def hPt_of_def
      ty_of_def ry_of_def hCanvas_of_def or_default_def)

lemma segments_single_added:
  "segments_loop [\<lparr>chg_added = True, chg_removed = False, chg_value = v\<rparr>] 0 0 [] =
     [\<lparr>seg_start = 0, seg_end = int (length v), seg_kind = Added\<rparr>]"
  using segments_loop_closed [of 0 "[\<lparr>chg_added = True, chg_removed = False, chg_value = v\<rparr>]" "[]"]
  by (simp add: spec_pos2_def)

lemma sample_segments:
  "computeAddedAndModifiedSegments prefix_diff [] [0x61] =
     [\<lparr>seg_start = 0, seg_end = 1, seg_kind = Added\<rparr>]"
  "computeAddedAndModifiedSegments prefix_diff [] [0x20] =
     [\<lparr>seg_start = 0, seg_end = 1, seg_kind = Added\<rparr>]"
  by (simp_all add: computeAddedAndModifiedSegments_def prefix_diff_def segments_single_added)

text \<open>
  C8.  Annotating always returns a document; it has as many pages as the input file,
  page by page of the same width and height; the loaded input document is the same
  before and after the drawing; and the output document starts as the copy of every
  input page, in order.
\<close>

theorem C8_annotated_pages_keep_count_and_size:
  "\<exists>docs. createAnnotatedSecondPdf diffWords t1 t2 file = Inr docs \<and>
     length (outDoc docs) = length file \<and>
     map (\<lambda>p. (lp_width p, lp_height p)) (outDoc docs) =
       map (\<lambda>p. (page_width p, page_height p)) file \<and>
     inDoc docs = load file \<and>
     fold addPage (copyPages (load file) (getPageIndices (load file))) [] = load file"
proof -
  from createAnnotated_more [of diffWords t1 t2 "file"] obtain docs where
    r: "createAnnotatedSecondPdf diffWords t1 t2 file = Inr docs" and
    m: "drawn_more \<lparr>inDoc = load file, outDoc = load file\<rparr> docs
       (\<lambda>k h. [highlight seg it h.
                 seg \<leftarrow> computeAddedAndModifiedSegments diffWords t1 t2,
                 it \<leftarrow> lay_items (collectSecondTextLayout file),
                 box_pageIndex it = k \<and> overlaps seg it])"
    by blast
  from m have len: "length (outDoc docs) = length file" and inD: "inDoc docs = load file"
    by (simp_all add: drawn_more_def load_sizes)
  from m have "\<forall>k<length file. lp_width (outDoc docs ! k) = page_width (file ! k) \<and>
                  lp_height (outDoc docs ! k) = page_height (file ! k)"
    by (simp add: drawn_more_def load_sizes)
  with len have "map (\<lambda>p. (lp_width p, lp_height p)) (outDoc docs) =
       map (\<lambda>p. (page_width p, page_height p)) file"
    by (simp add: list_eq_iff_nth_eq)
  with r len inD show ?thesis by (simp add: copy_all_pages)
qed

theorem C8_annotated_pages_keep_count_and_size_witness:
  "\<exists>docs. createAnnotatedSecondPdf prefix_diff [] [0x61] [sample_page, blank_page] = Inr docs \<and>
     length (outDoc docs) = 2 \<and>
     map (\<lambda>p. (lp_width p, lp_height p)) (outDoc docs) = [(100, 100), (100, 100)] \<and>
     inDoc docs = load [sample_page, blank_page]"
  using C8_annotated_pages_keep_count_and_size [of prefix_diff "[]" "[0x61]" "[sample_page, blank_page]"]
  by (auto simp: sample_page_def blank_page_def)

text \<open>
  C4.  On every page of the output, the rectangles are, in loop order, one for each pair
  of a segment and a layout item of that page with \<open>overlapStart < overlapEnd\<close>, where
  \<open>overlapStart = max segment.start run.start\<close> and
  \<open>overlapEnd = min segment.end run.end\<close>, and none for any other pair; the rectangle
  of a pair has \<open>x = run.x + run.width * fracStart\<close> and
  \<open>width = run.width * fracWidth\<close> with
  \<open>fracStart = (overlapStart - run.start) / max 1 (run.end - run.start)\<close> and
  \<open>fracWidth = (overlapEnd - overlapStart) / max 1 (run.end - run.start)\<close>.  The
  denominator is at least 1, so no division is by zero.
\<close>

theorem C4_rectangle_x_and_width:
  assumes "k < length file"
  shows "\<exists>docs. createAnnotatedSecondPdf diffWords t1 t2 file = Inr docs \<and>
     map (\<lambda>r. (rect_x r, rect_width r)) (lp_drawn (outDoc docs ! k)) =
       [(box_x run + box_width run *
           (real_of_int (max (seg_start seg) (box_start run) - box_start run)
              / real_of_int (max 1 (box_end run - box_start run))),
         box_width run *
           (real_of_int (min (seg_end seg) (box_end run) - max (seg_start seg) (box_start run))
              / real_of_int (max 1 (box_end run - box_start run)))).
        seg \<leftarrow> computeAddedAndModifiedSegments diffWords t1 t2,
        run \<leftarrow> lay_items (collectSecondTextLayout file),
        box_pageIndex run = k \<and>
        max (seg_start seg) (box_start run) < min (seg_end seg) (box_end run)] \<and>
     (\<forall>run\<in>set (lay_items (collectSecondTextLayout file)).
        1 \<le> max 1 (box_end run - box_start run))"
proof -
  from createAnnotated_drawn [OF assms, of diffWords t1 t2] obtain docs where
    r: "createAnnotatedSecondPdf diffWords t1 t2 file = Inr docs" and
    d: "lp_drawn (outDoc docs ! k) =
       [highlight seg it (page_height (file ! k)).
          seg \<leftarrow> computeAddedAndModifiedSegments diffWords t1 t2,
          it \<leftarrow> lay_items (collectSecondTextLayout file),
          box_pageIndex it = k \<and> overlaps seg it]"
    by blast
  have "map (\<lambda>r. (rect_x r, rect_width r)) (lp_drawn (outDoc docs ! k)) =
       [(box_x run + box_width run *
           (real_of_int (max (seg_start seg) (box_start run) - box_start run)
              / real_of_int (max 1 (box_end run - box_start run))),
         box_width run *
           (real_of_int (min (seg_end seg) (box_end run) - max (seg_start seg) (box_start run))
              / real_of_int (max 1 (box_end run - box_start run)))).
        seg \<leftarrow> computeAddedAndModifiedSegments diffWords t1 t2,
        run \<leftarrow> lay_items (collectSecondTextLayout file),
        box_pageIndex run = k \<and>
        max (seg_start seg) (box_start run) < min (seg_end seg) (box_end run)]"
    unfolding d map_highlights overlaps_def by (simp add: highlight_def Let_def cong: if_cong)
  with r show ?thesis by auto
qed

theorem C4_rectangle_x_and_width_witness:
  "0 < length [sample_page] \<and>
   (\<exists>docs. createAnnotatedSecondPdf prefix_diff [] [0x61] [sample_page] = Inr docs \<and>
      map (\<lambda>r. (rect_x r, rect_width r)) (lp_drawn (outDoc docs ! 0)) = [(0, 25)])"
  using C4_rectangle_x_and_width [of 0 "[sample_page]" prefix_diff "[]" "[0x61]"]
  by (simp add: sample_segments sample_layout_items)

text \<open>
  C3, as the claim states it: the rectangle of a run has the run's own \<open>y\<close>.  On the
  one-page sample the run has \<open>y = 70\<close> (page height 100, the item at 10 and 20 high)
  and the rectangle drawn for it has \<open>y = 10\<close>.
\<close>

theorem C3_rectangle_y_is_run_y_counterexample:
  "map rect_y (drawn_on (createAnnotatedSecondPdf prefix_diff [] [0x61] [sample_page]) 0) = [10] \<and>
   map box_y (lay_items (collectSecondTextLayout [sample_page])) = [70]"
proof -
  have "0 < length [sample_page]" by simp
  from createAnnotated_drawn [OF this, of prefix_diff "[]" "[0x61]"]
  show ?thesis
    by (auto simp: drawn_on_def sample_segments sample_layout_items overlaps_def highlight_def
        Let_def sample_page_height)
qed

text \<open>
  C3, amended.  The rectangle drawn for a run has
  \<open>y = max 0 (pageH - (run.y + run.height))\<close>, where the run's \<open>y\<close> is itself
  \<open>max 0 (pageHeight - (yTop + runHeight))\<close> as the layout collection stored it: the
  flip is applied once when the run is collected and once more when its rectangle is
  drawn.
\<close>

theorem C3_rectangle_y_flips_run_y_again:
  assumes "k < length file"
  shows "\<exists>docs. createAnnotatedSecondPdf diffWords t1 t2 file = Inr docs \<and>
     map rect_y (lp_drawn (outDoc docs ! k)) =
       [max 0 (page_height (file ! k) - (box_y run + box_height run)).
        seg \<leftarrow> computeAddedAndModifiedSegments diffWords t1 t2,
        run \<leftarrow> lay_items (collectSecondTextLayout file),
        box_pageIndex run = k \<and>
        max (seg_start seg) (box_start run) < min (seg_end seg) (box_end run)] \<and>
     map (\<lambda>run. (box_y run, box_height run)) (lay_items (collectSecondTextLayout file)) =
       map (\<lambda>(j, page, it).
              (max 0 (page_height page - (yTopPt_of page it + hPt_of page it)), hPt_of page it))
           (page_items file)"
proof -
  from createAnnotated_drawn [OF assms, of diffWords t1 t2] obtain docs where
    r: "createAnnotatedSecondPdf diffWords t1 t2 file = Inr docs" and
    d: "lp_drawn (outDoc docs ! k) =
       [highlight seg it (page_height (file ! k)).
          seg \<leftarrow> computeAddedAndModifiedSegments diffWords t1 t2,
          it \<leftarrow> lay_items (collectSecondTextLayout file),
          box_pageIndex it = k \<and> overlaps seg it]"
    by blast
  have "map (\<lambda>run. (box_y run, box_height run)) (lay_items (collectSecondTextLayout file)) =
        map (\<lambda>(j, n, x, y, w, h). (y, h))
          (map (\<lambda>b. (box_pageIndex b, box_end b - box_start b, box_x b, box_y b, box_width b, box_height b))
             (lay_items (collectSecondTextLayout file)))"
    by (simp add: comp_def)
  also have "\<dots> = map (\<lambda>(j, page, it).
              (max 0 (page_height page - (yTopPt_of page it + hPt_of page it)), hPt_of page it))
           (page_items file)"
    unfolding layout_props by (simp add: comp_def case_prod_unfold yBottomPt_of_def)
  finally have runs: "map (\<lambda>run. (box_y run, box_height run)) (lay_items (collectSecondTextLayout file)) =
       map (\<lambda>(j, page, it).
              (max 0 (page_height page - (yTopPt_of page it + hPt_of page it)), hPt_of page it))
           (page_items file)" .
  have "map rect_y (lp_drawn (outDoc docs ! k)) =
       [max 0 (page_height (file ! k) - (box_y run + box_height run)).
        seg \<leftarrow> computeAddedAndModifiedSegments diffWords t1 t2,
        run \<leftarrow> lay_items (collectSecondTextLayout file),
        box_pageIndex run = k \<and>
        max (seg_start seg) (box_start run) < min (seg_end seg) (box_end run)]"
    unfolding d map_highlights overlaps_def by (simp add: highlight_def Let_def cong: if_cong)
  with r runs show ?thesis by blast
qed


theorem C3_rectangle_y_flips_run_y_again_witness:
  "0 < length [sample_page] \<and>
   (\<exists>docs. createAnnotatedSecondPdf prefix_diff [] [0x61] [sample_page] = Inr docs \<and>
      map rect_y (lp_drawn (outDoc docs ! 0)) = [10] \<and>
      map (\<lambda>run. (box_y run, box_height run)) (lay_items (collectSecondTextLayout [sample_page]))
        = [(70, 20)])"
  using C3_rectangle_y_flips_run_y_again [of 0 "[sample_page]" prefix_diff "[]" "[0x61]"]
  by (simp add: sample_segments sample_layout_items sample_page_height sample_page_items)

lemma no_added_no_segments:
  assumes "\<forall>p\<in>set (diffWords t1 t2). \<not> chg_added p"
  shows "computeAddedAndModifiedSegments diffWords t1 t2 = []"
proof -
  have "spec_pos2 (diffWords t1 t2) 0 = 0" by (simp add: spec_pos2_def)
  with segments_loop_closed [of 0 "diffWords t1 t2" "[]"] assms
  show ?thesis by (simp add: computeAddedAndModifiedSegments_def)
qed

text \<open>
  C5.  When the word diff of a text against itself reports no added part (the diff
  library is a parameter here), the segment list is empty, annotating succeeds and no
  page of the output carries a rectangle.
\<close>

theorem C5_no_added_part_no_highlight:
  assumes "\<forall>p\<in>set (diffWords t t). \<not> chg_added p"
  shows "computeAddedAndModifiedSegments diffWords t t = [] \<and>
     (\<exists>docs. createAnnotatedSecondPdf diffWords t t file = Inr docs \<and>
        concat (map lp_drawn (outDoc docs)) = [])"
proof -
  have segs: "computeAddedAndModifiedSegments diffWords t t = []"
    using assms by (rule no_added_no_segments)
  have "createAnnotatedSecondPdf diffWords t t file = Inr \<lparr>inDoc = load file, outDoc = load file\<rparr>"
    by (simp add: createAnnotatedSecondPdf_def segs copy_all_pages Let_def)
  moreover have "concat (map lp_drawn (load file)) = []"
    by (simp add: load_def comp_def)
  ultimately show ?thesis using segs by simp
qed

theorem C5_no_added_part_no_highlight_witness:
  "map chg_added (prefix_diff [0x61, 0x0A, 0x0A] [0x61, 0x0A, 0x0A]) = [False] \<and>
   computeAddedAndModifiedSegments prefix_diff [0x61, 0x0A, 0x0A] [0x61, 0x0A, 0x0A] = [] \<and>
   (\<exists>docs. createAnnotatedSecondPdf prefix_diff [0x61, 0x0A, 0x0A] [0x61, 0x0A, 0x0A] [sample_page]
              = Inr docs \<and>
            concat (map lp_drawn (outDoc docs)) = [])"
proof -
  have h: "\<forall>p\<in>set (prefix_diff [0x61, 0x0A, 0x0A] [0x61, 0x0A, 0x0A]). \<not> chg_added p"
    by (simp add: prefix_diff_def)
  have m: "map chg_added (prefix_diff [0x61, 0x0A, 0x0A] [0x61, 0x0A, 0x0A]) = [False]"
    by (simp add: prefix_diff_def)
  from C5_no_added_part_no_highlight [of prefix_diff "[0x61, 0x0A, 0x0A]" "[sample_page]"] h m
  show ?thesis by blast
qed

text \<open>
  C10.  The offset extent of every layout item is the length of its string plus one,
  the appended separator, so it is never empty; and a segment that covers only the
  separator position of a run (from \<open>run.end - 1\<close> to \<open>run.end\<close>) overlaps the run, so
  that its rectangle is drawn on the run's page.
\<close>

theorem C10_separator_only_segment_is_drawn:
  assumes "run \<in> set (lay_items (collectSecondTextLayout file))"
    and "seg \<in> set (computeAddedAndModifiedSegments diffWords t1 t2)"
    and "seg_start seg = box_end run - 1"
    and "seg_end seg = box_end run"
  shows "map (\<lambda>b. box_end b - box_start b) (lay_items (collectSecondTextLayout file)) =
           map (\<lambda>(j, page, it). int (length (str_of it)) + 1) (page_items file) \<and>
         box_start run < box_end run \<and>
         (\<exists>docs. createAnnotatedSecondPdf diffWords t1 t2 file = Inr docs \<and>
            highlight seg run (page_height (file ! box_pageIndex run))
              \<in> set (lp_drawn (outDoc docs ! box_pageIndex run)))"
proof -
  have "map (\<lambda>b. box_end b - box_start b) (lay_items (collectSecondTextLayout file)) =
        map (\<lambda>(j, n, x, y, w, h). n)
          (map (\<lambda>b. (box_pageIndex b, box_end b - box_start b, box_x b, box_y b, box_width b, box_height b))
             (lay_items (collectSecondTextLayout file)))"
    by (simp add: comp_def)
  also have "\<dots> = map (\<lambda>(j, page, it). int (length (str_of it)) + 1) (page_items file)"
    unfolding layout_props by (simp add: comp_def case_prod_unfold)
  finally have extents: "map (\<lambda>b. box_end b - box_start b) (lay_items (collectSecondTextLayout file)) =
           map (\<lambda>(j, page, it). int (length (str_of it)) + 1) (page_items file)" .
  have lt: "box_start run < box_end run"
    using layout_ok [of "file"] assms(1) by (simp add: offsets_ok_def)
  then have ov: "overlaps seg run"
    using assms(3,4) by (simp add: overlaps_def)
  have k: "box_pageIndex run < length file" using assms(1) by (rule layout_pageIndex)
  from createAnnotated_drawn [OF k, of diffWords t1 t2] obtain docs where
    r: "createAnnotatedSecondPdf diffWords t1 t2 file = Inr docs" and
    d: "lp_drawn (outDoc docs ! box_pageIndex run) =
       [highlight seg it (page_height (file ! box_pageIndex run)).
          seg \<leftarrow> computeAddedAndModifiedSegments diffWords t1 t2,
          it \<leftarrow> lay_items (collectSecondTextLayout file),
          box_pageIndex it = box_pageIndex run \<and> overlaps seg it]"
    by blast
  have "highlight seg run (page_height (file ! box_pageIndex run))
              \<in> set (lp_drawn (outDoc docs ! box_pageIndex run))"
    unfolding d using assms(1,2) ov by auto
  with r extents lt show ?thesis by blast
qed

theorem C10_separator_only_segment_is_drawn_witness:
  "\<lparr>box_start = 0, box_end = 1, box_pageIndex = 0, box_x = 0, box_y = 70,
       box_width = 50, box_height = 20\<rparr> \<in> set (lay_items (collectSecondTextLayout [empty_item_page])) \<and>
   \<lparr>seg_start = 0, seg_end = 1, seg_kind = Added\<rparr>
      \<in> set (computeAddedAndModifiedSegments prefix_diff [] [0x20]) \<and>
   map (\<lambda>b. box_end b - box_start b) (lay_items (collectSecondTextLayout [empty_item_page])) = [1] \<and>
   (\<exists>docs. createAnnotatedSecondPdf prefix_diff [] [0x20] [empty_item_page] = Inr docs \<and>
      map (\<lambda>r. (rect_x r, rect_y r, rect_width r)) (lp_drawn (outDoc docs ! 0)) = [(0, 10, 50)])"
proof -
  let ?run = "\<lparr>box_start = 0, box_end = 1, box_pageIndex = 0, box_x = 0, box_y = 70,
       box_width = 50, box_height = 20\<rparr>"
  let ?seg = "\<lparr>seg_start = 0, seg_end = 1, seg_kind = Added\<rparr>"
  have 1: "?run \<in> set (lay_items (collectSecondTextLayout [empty_item_page]))"
    by (simp add: empty_item_layout_items)
  have 2: "?seg \<in> set (computeAddedAndModifiedSegments prefix_diff [] [0x20])"
    by (simp add: sample_segments)
  have 3: "seg_start ?seg = box_end ?run - 1" by simp
  have 4: "seg_end ?seg = box_end ?run" by simp
  from C10_separator_only_segment_is_drawn [OF 1 2 3 4] obtain docs where
    r: "createAnnotatedSecondPdf prefix_diff [] [0x20] [empty_item_page] = Inr docs" and
    m: "highlight ?seg ?run (page_height ([empty_item_page] ! box_pageIndex ?run))
          \<in> set (lp_drawn (outDoc docs ! box_pageIndex ?run))"
    by blast
  have "0 < length [empty_item_page]" by simp
  from createAnnotated_drawn [OF this, of prefix_diff "[]" "[0x20]"] r
  have "map (\<lambda>r. (rect_x r, rect_y r, rect_width r)) (lp_drawn (outDoc docs ! 0)) = [(0, 10, 50)]"
    by (simp add: sample_segments empty_item_layout_items overlaps_def highlight_def Let_def
        sample_page_height)
  with 1 2 r show ?thesis
    by (simp add: empty_item_layout_items)
qed


section \<open>The rows of the line diff\<close>

text \<open>No row of the line diff is ever of type \<open>ModifiedLine\<close>.\<close>

lemma unchanged_rows_never_modified:
  "\<forall>r\<in>set (ld_result st). dl_type r \<noteq> ModifiedLine \<Longrightarrow>
   \<forall>r\<in>set (ld_result (unchanged_rows ls st)). dl_type r \<noteq> ModifiedLine"
proof (induction ls arbitrary: st)
  case Nil
  then show ?case by simp
next
  case (Cons l ls)
  let ?st' = "st\<lparr>ld_result := ld_result st @
               [\<lparr>lineNumber1 = index1 st + 1, lineNumber2 = index2 st + 1,
                 dl_text1 = l, dl_text2 = l, dl_type = Unchanged\<rparr>],
            index1 := index1 st + 1, index2 := index2 st + 1\<rparr>"
  have "\<forall>r\<in>set (ld_result ?st'). dl_type r \<noteq> ModifiedLine"
    using Cons.prems by simp
  from Cons.IH [OF this] Cons.prems show ?case by simp
qed

lemma removed_rows_never_modified:
  "\<forall>r\<in>set (ld_result st). dl_type r \<noteq> ModifiedLine \<Longrightarrow>
   \<forall>r\<in>set (ld_result (removed_rows ls st)). dl_type r \<noteq> ModifiedLine"
proof (induction ls arbitrary: st)
  case Nil
  then show ?case by simp
next
  case (Cons l ls)
  let ?st' = "st\<lparr>ld_result := ld_result st @
               [\<lparr>lineNumber1 = index1 st + 1, lineNumber2 = - 1,
                 dl_text1 = l, dl_text2 = [], dl_type = RemovedLine\<rparr>],
            index1 := index1 st + 1\<rparr>"
  have "\<forall>r\<in>set (ld_result ?st'). dl_type r \<noteq> ModifiedLine"
    using Cons.prems by simp
  from Cons.IH [OF this] Cons.prems show ?case by simp
qed

lemma added_rows_never_modified:
  "\<forall>r\<in>set (ld_result st). dl_type r \<noteq> ModifiedLine \<Longrightarrow>
   \<forall>r\<in>set (ld_result (added_rows ls st)). dl_type r \<noteq> ModifiedLine"
proof (induction ls arbitrary: st)
  case Nil
  then show ?case by simp
next
  case (Cons l ls)
  let ?st' = "st\<lparr>ld_result := ld_result st @
               [\<lparr>lineNumber1 = - 1, lineNumber2 = index2 st + 1,
                 dl_text1 = [], dl_text2 = l, dl_type = AddedLine\<rparr>],
            index2 := index2 st + 1\<rparr>"
  have "\<forall>r\<in>set (ld_result ?st'). dl_type r \<noteq> ModifiedLine"
    using Cons.prems by simp
  from Cons.IH [OF this] Cons.prems show ?case by simp
qed

lemma lineDiff_parts_never_modified:
  "\<forall>r\<in>set (ld_result st). dl_type r \<noteq> ModifiedLine \<Longrightarrow>
   \<forall>r\<in>set (ld_result (lineDiff_parts parts st)). dl_type r \<noteq> ModifiedLine"
proof (induction parts arbitrary: st)
  case Nil
  then show ?case by simp
next
  case (Cons part parts)
  let ?lines = "split_lines (chg_value part)"
  consider (u) "\<not> chg_added part" "\<not> chg_removed part"
    | (r) "chg_removed part" | (a) "chg_added part" "\<not> chg_removed part"
    by blast
  then show ?case
  proof cases
    case u
    then have "lineDiff_parts (part # parts) st = lineDiff_parts parts (unchanged_rows ?lines st)"
      by (simp add: Let_def)
    with Cons.IH [OF unchanged_rows_never_modified [OF Cons.prems]] show ?thesis by simp
  next
    case r
    then have "lineDiff_parts (part # parts) st = lineDiff_parts parts (removed_rows ?lines st)"
      by (simp add: Let_def)
    with Cons.IH [OF removed_rows_never_modified [OF Cons.prems]] show ?thesis by simp
  next
    case a
    then have "lineDiff_parts (part # parts) st = lineDiff_parts parts (added_rows ?lines st)"
      by (simp add: Let_def)
    with Cons.IH [OF added_rows_never_modified [OF Cons.prems]] show ?thesis by simp
  qed
qed

lemma createLineDiff_never_modified:
  "\<forall>row\<in>set (createLineDiff diffLines t1 t2). dl_type row \<noteq> ModifiedLine"
  unfolding createLineDiff_def
  by (rule lineDiff_parts_never_modified) simp

text \<open>
  C6.  The claim: a removed line next to an added line is surfaced as one row of kind
  modified carrying both texts.  For the texts \<open>"a\n"\<close> and \<open>"b\n"\<close>, whose line
  diff is the removed part \<open>"a\n"\<close> followed by the added part \<open>"b\n"\<close>, the rows are
  a removed row for \<open>"a"\<close> (no second text, second line number -1) and an added row for
  \<open>"b"\<close> (no first text, first line number -1): two rows, none of them modified.
\<close>

theorem C6_removed_then_added_gives_two_rows:
  "createLineDiff prefix_diff [0x61, 0x0A] [0x62, 0x0A] =
     [\<lparr>lineNumber1 = 1, lineNumber2 = - 1, dl_text1 = [0x61], dl_text2 = [],
       dl_type = RemovedLine\<rparr>,
      \<lparr>lineNumber1 = - 1, lineNumber2 = 1, dl_text1 = [], dl_text2 = [0x62],
       dl_type = AddedLine\<rparr>]"
proof -
  have parts: "prefix_diff [0x61, 0x0A] [0x62, 0x0A] =
     [\<lparr>chg_added = False, chg_removed = True, chg_value = [0x61, 0x0A]\<rparr>,
      \<lparr>chg_added = True, chg_removed = False, chg_value = [0x62, 0x0A]\<rparr>]"
    by (simp add: prefix_diff_def)
  show ?thesis
    by (simp add: createLineDiff_def parts newline_def)
qed

section \<open>Sanitising text for the report font\<close>

lemma replace_class_map:
  "(\<And>c. length (f [c]) = 1) \<Longrightarrow>
   replace_class lo hi f s = map (\<lambda>c. if lo \<le> c \<and> c \<le> hi then hd (f [c]) else c) s"
proof (induction s)
  case Nil show ?case by simp
next
  case (Cons c s)
  have "f [c] = [hd (f [c])]" using Cons.prems [of c] by (cases "f [c]") simp_all
  with Cons show ?case by simp
qed

text \<open>
  C9, as the claim states it: every code point that is replaced is replaced by exactly
  one placeholder.  The string holding the single code point U+1F600 is two code units
  long, and both are replaced: one code point, two placeholders.
\<close>

theorem C9_one_placeholder_per_code_point_counterexample:
  "codePoints [0xD83D, 0xDE00] = [0x1F600] \<and>
   sanitizeTextForWinAnsi [0xD83D, 0xDE00] = [0x3F, 0x3F]"
  by (simp add: sanitizeTextForWinAnsi_def)

text \<open>
  What the sanitiser computes, code unit by code unit.
\<close>

lemma sanitize_map:
  "sanitizeTextForWinAnsi s =
     map (\<lambda>c. if c < 0x80 then c else if c = 0x27A2 then 0x2D else 0x3F) s"
proof -
  have top: "c \<le> 0xFFFF" for c :: "16 word"
  proof -
    have "unat c < 2 ^ 16" using unsigned_less [of c] by simp
    then show ?thesis by (simp add: word_le_nat_alt)
  qed
  show ?thesis
    unfolding sanitizeTextForWinAnsi_def
    by (subst replace_class_map) (auto simp: top not_less)
qed

text \<open>
  The sanitiser also replaces code units from 0x0080 up that the font can encode: the
  letter U+00E9, which the report's own title is drawn with, unsanitised and in the same
  font, becomes a question mark (here in the word spelt D, i, f, f, U+00E9).
\<close>

lemma sanitize_replaces_e_acute:
  "sample_encodable 0xE9 \<and>
   sanitizeTextForWinAnsi [0x44, 0x69, 0x66, 0x66, 0xE9] = [0x44, 0x69, 0x66, 0x66, 0x3F]"
  by (simp add: sanitize_map sample_encodable_def)

text \<open>
  C9, amended.  The font encoding is a parameter \<open>encodable\<close>.  Sanitising is total
  and replaces in place, code unit by code unit: the output is as long as the input;
  every code unit from 0x0080 up that the encoding cannot represent is replaced by
  exactly one placeholder, a hyphen for U+27A2 and a question mark for any other; and
  every code unit below 0x0080 that the encoding can represent is kept.  Nothing is said
  of the other code units.
\<close>

theorem C9_unencodable_units_replaced_in_place:
  "length (sanitizeTextForWinAnsi s) = length s \<and>
   (\<forall>i<length s.
      (0x80 \<le> s ! i \<and> \<not> encodable (s ! i) \<longrightarrow>
         sanitizeTextForWinAnsi s ! i = (if s ! i = 0x27A2 then 0x2D else 0x3F)) \<and>
      (s ! i < 0x80 \<and> encodable (s ! i) \<longrightarrow> sanitizeTextForWinAnsi s ! i = s ! i))"
  by (simp add: sanitize_map not_less [symmetric])

theorem C9_unencodable_units_replaced_in_place_witness:
  "length (sanitizeTextForWinAnsi [0x41, 0x27A2, 0x4E2D]) = 3 \<and>
   sanitizeTextForWinAnsi [0x41, 0x27A2, 0x4E2D] ! 0 = 0x41 \<and>
   sanitizeTextForWinAnsi [0x41, 0x27A2, 0x4E2D] ! 1 = 0x2D \<and>
   sanitizeTextForWinAnsi [0x41, 0x27A2, 0x4E2D] ! 2 = 0x3F"
proof -
  let ?s = "[0x41, 0x27A2, 0x4E2D] :: jsstring"
  note T = C9_unencodable_units_replaced_in_place [of ?s sample_encodable]
  from T have len: "length (sanitizeTextForWinAnsi ?s) = 3" by simp
  from T have all: "\<And>i. i < 3 \<Longrightarrow>
      (0x80 \<le> ?s ! i \<and> \<not> sample_encodable (?s ! i) \<longrightarrow>
         sanitizeTextForWinAnsi ?s ! i = (if ?s ! i = 0x27A2 then 0x2D else 0x3F)) \<and>
      (?s ! i < 0x80 \<and> sample_encodable (?s ! i) \<longrightarrow>
         sanitizeTextForWinAnsi ?s ! i = ?s ! i)"
    by simp
  have 0: "sanitizeTextForWinAnsi ?s ! 0 = 0x41"
    using all [of 0] by (simp add: sample_encodable_def)
  have 1: "sanitizeTextForWinAnsi ?s ! 1 = 0x2D"
    using all [of 1] by (simp add: sample_encodable_def)
  have 2: "sanitizeTextForWinAnsi ?s ! 2 = 0x3F"
    using all [of 2] by (simp add: sample_encodable_def)
  from len 0 1 2 show ?thesis by simp
qed

end
